theory Spec2Isabelle
  imports Main "HOL-Library.Multiset" "HOL-Library.Char_ord" "HOL-Library.List_Lexorder"
    "HOL-Library.Product_Lexorder"
begin

section \<open>Values and exceptions\<close>

text \<open>
  \<^verbatim>\<open>json.loads(string, object_pairs_hook=OrderedDict)\<close> builds a tree of Python
  values: \<^verbatim>\<open>None\<close>, \<^verbatim>\<open>bool\<close>, \<^verbatim>\<open>int\<close>, \<^verbatim>\<open>str\<close>, \<^verbatim>\<open>list\<close> and
  \<^verbatim>\<open>OrderedDict\<close>. An \<^verbatim>\<open>OrderedDict\<close> is an association list in insertion order whose
  keys are pairwise different. JSON numbers with a fraction or an exponent become
  floating point values and have no constructor here. A character is a code point
  below 256. Every value of a decoded document is a fresh object, so no two places
  of the tree share a list or a mapping, and an update in place is an update of the
  one position that holds the object.
\<close>

datatype json =
    JNull
  | JBool bool
  | JInt int
  | JString string
  | JList "json list"
  | JObject "(string \<times> json) list"

datatype error =
    KeyError
  | TypeError
  | AttributeError
  | AssertionError
  | IOError
  | JSONDecodeError

definition bind :: "error + 'a \<Rightarrow> ('a \<Rightarrow> error + 'b) \<Rightarrow> error + 'b" where
  "bind m f = (case m of Inl e \<Rightarrow> Inl e | Inr x \<Rightarrow> f x)"

section \<open>The library operations the harness calls\<close>

subsection \<open>str.splitlines(True)\<close>

text \<open>
  The line boundaries of \<^verbatim>\<open>str.splitlines\<close> below code point 256: LF, VT, FF, CR,
  FS, GS, RS, NEL, and the pair CR LF, which is one boundary. With
  \<^verbatim>\<open>keepends=True\<close> every line keeps its boundary. (The boundaries U+2028 and
  U+2029 are not values of \<^typ>\<open>char\<close>.)
\<close>

definition is_linebreak :: "char \<Rightarrow> bool" where
  "is_linebreak c = ((of_char c :: nat) \<in> {10, 11, 12, 13, 28, 29, 30, 133})"

definition CR :: char where "CR = CHR 0x0D"
definition LF :: char where "LF = CHR 0x0A"

fun splitlines :: "string \<Rightarrow> string list" where
  "splitlines [] = []"
| "splitlines (c # cs) =
     (if c = CR \<and> cs \<noteq> [] \<and> hd cs = LF then [c, LF] # splitlines (tl cs)
      else if is_linebreak c then [c] # splitlines cs
      else (case splitlines cs of [] \<Rightarrow> [[c]] | l # ls \<Rightarrow> (c # l) # ls))"

subsection \<open>Equality and ordering of values\<close>

text \<open>
  \<^verbatim>\<open>==\<close> never raises on decoded values. A boolean is the integer 0 or 1. Two
  lists are equal when they are equal element by element, two ordered mappings when
  their items are equal pair by pair, in order.
\<close>

fun num_of :: "json \<Rightarrow> int option" where
  "num_of (JInt n) = Some n"
| "num_of (JBool b) = Some (if b then 1 else 0)"
| "num_of _ = None"

fun py_eq :: "json \<Rightarrow> json \<Rightarrow> bool"
  and py_eq_list :: "json list \<Rightarrow> json list \<Rightarrow> bool"
  and py_eq_items :: "(string \<times> json) list \<Rightarrow> (string \<times> json) list \<Rightarrow> bool" where
  "py_eq JNull b = (b = JNull)"
| "py_eq (JBool x) b = (num_of b = Some (if x then 1 else 0))"
| "py_eq (JInt n) b = (num_of b = Some n)"
| "py_eq (JString s) b = (b = JString s)"
| "py_eq (JList xs) b = (case b of JList ys \<Rightarrow> py_eq_list xs ys | _ \<Rightarrow> False)"
| "py_eq (JObject kvs) b = (case b of JObject kws \<Rightarrow> py_eq_items kvs kws | _ \<Rightarrow> False)"
| "py_eq_list [] ys = (ys = [])"
| "py_eq_list (x # xs) ys =
     (case ys of [] \<Rightarrow> False | y # ys' \<Rightarrow> py_eq x y \<and> py_eq_list xs ys')"
| "py_eq_items [] kws = (kws = [])"
| "py_eq_items (kv # kvs) kws =
     (case kws of [] \<Rightarrow> False
      | kw # kws' \<Rightarrow> fst kv = fst kw \<and> py_eq (snd kv) (snd kw) \<and> py_eq_items kvs kws')"

text \<open>Strings are ordered by code point, position by position.\<close>

fun str_lt :: "string \<Rightarrow> string \<Rightarrow> bool" where
  "str_lt [] ys = (ys \<noteq> [])"
| "str_lt (x # xs) [] = False"
| "str_lt (x # xs) (y # ys) =
     (if x = y then str_lt xs ys else (of_char x :: nat) < of_char y)"

text \<open>
  \<^verbatim>\<open><\<close> as Python 3 defines it: numbers with numbers, strings with strings, and
  lists with lists, where the first pair of elements that are not \<^verbatim>\<open>==\<close> decides
  and a proper prefix is smaller. Every other pair of operands raises TypeError:
  two mappings, None, and operands of different kinds have no order.
\<close>

fun py_lt :: "json \<Rightarrow> json \<Rightarrow> error + bool"
  and py_lt_list :: "json list \<Rightarrow> json list \<Rightarrow> error + bool" where
  "py_lt JNull b = Inl TypeError"
| "py_lt (JBool x) b =
     (case num_of b of Some n \<Rightarrow> Inr ((if x then 1 else 0) < n) | None \<Rightarrow> Inl TypeError)"
| "py_lt (JInt m) b = (case num_of b of Some n \<Rightarrow> Inr (m < n) | None \<Rightarrow> Inl TypeError)"
| "py_lt (JString s) b = (case b of JString t \<Rightarrow> Inr (str_lt s t) | _ \<Rightarrow> Inl TypeError)"
| "py_lt (JList xs) b = (case b of JList ys \<Rightarrow> py_lt_list xs ys | _ \<Rightarrow> Inl TypeError)"
| "py_lt (JObject kvs) b = Inl TypeError"
| "py_lt_list [] ys = Inr (ys \<noteq> [])"
| "py_lt_list (x # xs) ys =
     (case ys of [] \<Rightarrow> Inr False
      | y # ys' \<Rightarrow> if py_eq x y then py_lt_list xs ys' else py_lt x y)"

subsection \<open>list.sort(key=..., reverse=...)\<close>

text \<open>
  \<^verbatim>\<open>list.sort\<close> first calls the key function on every element, then sorts the
  (key, element) pairs comparing keys with \<^verbatim>\<open><\<close> only, and is stable: elements
  whose keys do not order them keep their relative order. An exception of the key
  function or of a comparison leaves the call. With \<^verbatim>\<open>reverse=True\<close> the list is
  reversed, sorted, and reversed again, which keeps the sort stable. The sort is
  written as an insertion sort; which pairs the library's merge sort compares is
  not part of its contract.
\<close>

fun decorate :: "(json \<Rightarrow> error + json) \<Rightarrow> json list \<Rightarrow> error + (json \<times> json) list" where
  "decorate key [] = Inr []"
| "decorate key (x # xs) =
     bind (key x) (\<lambda>k. bind (decorate key xs) (\<lambda>ps. Inr ((k, x) # ps)))"

fun insort_lt :: "json \<times> json \<Rightarrow> (json \<times> json) list \<Rightarrow> error + (json \<times> json) list" where
  "insort_lt p [] = Inr [p]"
| "insort_lt p (q # qs) =
     bind (py_lt (fst q) (fst p)) (\<lambda>smaller.
       if smaller then bind (insort_lt p qs) (\<lambda>r. Inr (q # r)) else Inr (p # q # qs))"

fun stable_sort :: "(json \<times> json) list \<Rightarrow> error + (json \<times> json) list" where
  "stable_sort [] = Inr []"
| "stable_sort (p # ps) = bind (stable_sort ps) (insort_lt p)"

definition list_sort :: "(json \<Rightarrow> error + json) \<Rightarrow> bool \<Rightarrow> json list \<Rightarrow> error + json list" where
  "list_sort key reverse xs =
     bind (decorate key xs) (\<lambda>ps.
     bind (stable_sort (if reverse then rev ps else ps)) (\<lambda>r.
     Inr (map snd (if reverse then rev r else r))))"

text \<open>Only a list has a \<^verbatim>\<open>sort\<close> method.\<close>

definition sort_method :: "json \<Rightarrow> (json \<Rightarrow> error + json) \<Rightarrow> bool \<Rightarrow> error + json" where
  "sort_method x key reverse =
     (case x of
        JList xs \<Rightarrow> bind (list_sort key reverse xs) (\<lambda>r. Inr (JList r))
      | _ \<Rightarrow> Inl AttributeError)"

subsection \<open>Mappings\<close>

text \<open>
  \<^verbatim>\<open>x[key]\<close> with a string key: the value of a mapping, KeyError when the key is
  missing, TypeError on every value that is not a mapping.
\<close>

definition getitem :: "json \<Rightarrow> string \<Rightarrow> error + json" where
  "getitem x key =
     (case x of
        JObject kvs \<Rightarrow> (case map_of kvs key of None \<Rightarrow> Inl KeyError | Some v \<Rightarrow> Inr v)
      | _ \<Rightarrow> Inl TypeError)"

text \<open>
  \<^verbatim>\<open>x.pop(key, None)\<close>: a mapping loses the key when it has it. \<^verbatim>\<open>list.pop\<close>
  takes one argument at most (TypeError); the other values have no \<^verbatim>\<open>pop\<close>.
\<close>

definition dict_pop :: "string \<Rightarrow> (string \<times> json) list \<Rightarrow> (string \<times> json) list" where
  "dict_pop key kvs = filter (\<lambda>kv. fst kv \<noteq> key) kvs"

definition pop_method :: "json \<Rightarrow> string \<Rightarrow> error + json" where
  "pop_method x key =
     (case x of
        JObject kvs \<Rightarrow> Inr (JObject (dict_pop key kvs))
      | JList _ \<Rightarrow> Inl TypeError
      | _ \<Rightarrow> Inl AttributeError)"

text \<open>
  The list a mapping holds under a key is changed in place: the mapping keeps its
  keys and their order, and the entry of the key holds the changed list.
\<close>

definition mutated :: "string \<Rightarrow> json \<Rightarrow> json \<Rightarrow> json" where
  "mutated key v x =
     (case x of
        JObject kvs \<Rightarrow> JObject (map (\<lambda>kv. if fst kv = key then (key, v) else kv) kvs)
      | _ \<Rightarrow> x)"

section \<open>streamline_errors\<close>

text \<open>
  \<^verbatim>\<open>for i, error in enumerate(errors[:])\<close>: the loop walks a copy of the list and
  writes into the list itself. An element that is not a string has no
  \<^verbatim>\<open>splitlines\<close> (AttributeError).
\<close>

fun streamline_loop :: "nat \<Rightarrow> json list \<Rightarrow> json list \<Rightarrow> error + json list" where
  "streamline_loop i [] errors = Inr errors"
| "streamline_loop i (JString error # rest) errors =
     (let error_lines = splitlines error in
      if length error_lines \<le> 1 then streamline_loop (Suc i) rest errors
      else
        let cleaned_error = hd error_lines @ last error_lines
        in streamline_loop (Suc i) rest (errors[i := JString cleaned_error]))"
| "streamline_loop i (_ # rest) errors = Inl AttributeError"

text \<open>
  \<^verbatim>\<open>errors[:]\<close> copies a list. It also copies a string, whose elements are
  one-character strings of at most one line each, so a string is left as it is. A
  mapping, a number, a boolean and None cannot be sliced (TypeError).
\<close>

fun streamline_errors :: "json \<Rightarrow> error + json" where
  "streamline_errors (JList errors) =
     (case streamline_loop 0 errors errors of Inl e \<Rightarrow> Inl e | Inr errors' \<Rightarrow> Inr (JList errors'))"
| "streamline_errors (JString s) = Inr (JString s)"
| "streamline_errors _ = Inl TypeError"

section \<open>streamline_headers\<close>

definition streamline_headers :: "json \<Rightarrow> error + json" where
  "streamline_headers headers =
     bind (pop_method headers ''deltacode_version'') (\<lambda>headers.
     bind (pop_method headers ''deltacode_options'') (\<lambda>headers.
     bind (getitem headers ''deltacode_errors'') (\<lambda>errors.
     bind (streamline_errors errors) (\<lambda>errors.
     Inr (mutated ''deltacode_errors'' errors headers)))))"

section \<open>load_json_result_from_string and load_json_result\<close>

text \<open>
  The decoder \<^verbatim>\<open>json.loads\<close> is a parameter: it maps the text to the decoded
  value, or to nothing when the text is not JSON. \<^verbatim>\<open>streamline_headers\<close> is called
  on the scan results themselves. \<^verbatim>\<open>remove_file_date\<close> is not used by the body.
\<close>

definition load_json_result_from_string ::
  "(string \<Rightarrow> json option) \<Rightarrow> string \<Rightarrow> bool \<Rightarrow> error + json" where
  "load_json_result_from_string loads string remove_file_date =
     (case loads string of
        None \<Rightarrow> Inl JSONDecodeError
      | Some scan_results \<Rightarrow>
          bind (streamline_headers scan_results) (\<lambda>scan_results.
          bind (getitem scan_results ''deltas'') (\<lambda>deltas.
          bind (sort_method deltas (\<lambda>x. getitem x ''factors'') False) (\<lambda>deltas.
          let scan_results = mutated ''deltas'' deltas scan_results in
          bind (getitem scan_results ''deltas'') (\<lambda>deltas.
          bind (sort_method deltas (\<lambda>x. getitem x ''score'') True) (\<lambda>deltas.
          Inr (mutated ''deltas'' deltas scan_results)))))))"

text \<open>The files are a map from a location to the text stored there.\<close>

type_synonym files = "string \<rightharpoonup> string"

definition load_json_result ::
  "(string \<Rightarrow> json option) \<Rightarrow> files \<Rightarrow> string \<Rightarrow> bool \<Rightarrow> error + json" where
  "load_json_result loads fs location remove_file_date =
     (case fs location of
        None \<Rightarrow> Inl IOError
      | Some scan_results \<Rightarrow> load_json_result_from_string loads scan_results remove_file_date)"

section \<open>check_json_scan\<close>

text \<open>
  \<^verbatim>\<open>dumps\<close> stands for \<^verbatim>\<open>json.dumps(_, indent=2, sort_keys=True, separators=(',', ': '))\<close>
  and \<^verbatim>\<open>dump\<close> for writing \<^verbatim>\<open>json.dump(results, reg, indent=2, separators=(',', ': '))\<close>
  into the file opened with \<^verbatim>\<open>'wb'\<close>; opening it empties the file, and when the
  write raises the file stays empty. The function returns the outcome of the call
  together with the files it leaves.
\<close>

definition check_json_scan ::
  "(string \<Rightarrow> json option) \<Rightarrow> (json \<Rightarrow> string) \<Rightarrow> (json \<Rightarrow> error + string) \<Rightarrow>
   files \<Rightarrow> string \<Rightarrow> string \<Rightarrow> bool \<Rightarrow> bool \<Rightarrow> bool \<Rightarrow> (error + unit) \<times> files" where
  "check_json_scan loads dumps dump fs expected_file result_file regen remove_file_date ignore_headers =
     (case load_json_result loads fs result_file remove_file_date of
        Inl e \<Rightarrow> (Inl e, fs)
      | Inr results \<Rightarrow>
          let (written, fs) =
                (if regen then
                   (case dump results of
                      Inl e \<Rightarrow> (Inl e, fs(expected_file \<mapsto> []))
                    | Inr text \<Rightarrow> (Inr (), fs(expected_file \<mapsto> text)))
                 else (Inr (), fs))
          in case written of
               Inl e \<Rightarrow> (Inl e, fs)
             | Inr _ \<Rightarrow>
                 (case load_json_result loads fs expected_file remove_file_date of
                    Inl e \<Rightarrow> (Inl e, fs)
                  | Inr expected \<Rightarrow>
                      (case (if ignore_headers
                             then bind (pop_method results ''headers'') (\<lambda>results.
                                  bind (pop_method expected ''headers'') (\<lambda>expected.
                                  Inr (expected, results)))
                             else Inr (expected, results)) of
                         Inl e \<Rightarrow> (Inl e, fs)
                       | Inr (expected, results) \<Rightarrow>
                           if dumps expected = dumps results then (Inr (), fs)
                           else (Inl AssertionError, fs))))"

section \<open>Vocabulary of the statements\<close>

text \<open>What \<^verbatim>\<open>streamline_errors\<close> leaves of one error string.\<close>

definition cleaned :: "string \<Rightarrow> string" where
  "cleaned e = (let ls = splitlines e in if length ls \<le> 1 then e else hd ls @ last ls)"

text \<open>
  A delta as deltacode writes it: a mapping with an integer \<^verbatim>\<open>score\<close> and a list of
  strings as \<^verbatim>\<open>factors\<close>.
\<close>

fun is_str :: "json \<Rightarrow> bool" where
  "is_str (JString _) = True"
| "is_str _ = False"

definition wf_delta :: "json \<Rightarrow> bool" where
  "wf_delta d =
     (case getitem d ''score'' of
        Inr (JInt _) \<Rightarrow>
          (case getitem d ''factors'' of Inr (JList fs) \<Rightarrow> list_all is_str fs | _ \<Rightarrow> False)
      | _ \<Rightarrow> False)"

text \<open>The two keys of a well-formed delta, as values of ordered types.\<close>

fun str_of :: "json \<Rightarrow> string" where
  "str_of (JString s) = s"
| "str_of _ = []"

definition score_of :: "json \<Rightarrow> int" where
  "score_of d = (case getitem d ''score'' of Inr (JInt n) \<Rightarrow> n | _ \<Rightarrow> 0)"

definition factors_of :: "json \<Rightarrow> string list" where
  "factors_of d = (case getitem d ''factors'' of Inr (JList fs) \<Rightarrow> map str_of fs | _ \<Rightarrow> [])"

text \<open>
  Two keys tie when \<^verbatim>\<open><\<close> orders them in neither direction. \<open>in_order a b\<close>: the
  delta \<open>a\<close> may stand before \<open>b\<close> in a list ordered by score descending and, among
  equal scores, by factors ascending.
\<close>

definition tie :: "json \<Rightarrow> json \<Rightarrow> bool" where
  "tie a b = (py_lt a b = Inr False \<and> py_lt b a = Inr False)"

definition in_order :: "json \<Rightarrow> json \<Rightarrow> bool" where
  "in_order a b =
     (case (getitem a ''score'', getitem b ''score'', getitem a ''factors'', getitem b ''factors'') of
        (Inr sa, Inr sb, Inr fa, Inr fb) \<Rightarrow>
          py_lt sb sa = Inr True \<or> (tie sa sb \<and> py_lt fb fa = Inr False)
      | _ \<Rightarrow> False)"

definition tied :: "json \<Rightarrow> json \<Rightarrow> bool" where
  "tied a b =
     (case (getitem a ''score'', getitem b ''score'', getitem a ''factors'', getitem b ''factors'') of
        (Inr sa, Inr sb, Inr fa, Inr fb) \<Rightarrow> tie sa sb \<and> tie fa fb
      | _ \<Rightarrow> False)"

text \<open>
  The two calls of lines 186 and 187 on a list of deltas.
\<close>

definition sort_deltas :: "json list \<Rightarrow> error + json list" where
  "sort_deltas deltas =
     bind (list_sort (\<lambda>x. getitem x ''factors'') False deltas)
          (list_sort (\<lambda>x. getitem x ''score'') True)"

text \<open>
  The list of deltas can be sorted without a TypeError when every entry has the key
  and \<^verbatim>\<open><\<close> is defined on every pair of key values.
\<close>

definition orderable :: "(json \<Rightarrow> error + json) \<Rightarrow> json list \<Rightarrow> bool" where
  "orderable key xs =
     list_all (\<lambda>a. list_all (\<lambda>b.
       (case (key a, key b) of
          (Inr ka, Inr kb) \<Rightarrow> (case py_lt ka kb of Inr _ \<Rightarrow> True | Inl _ \<Rightarrow> False)
        | _ \<Rightarrow> False)) xs) xs"

text \<open>
  The order the specification gives the Report: score descending, then factors
  ascending, then path ascending. The path of a delta is the path of its new
  record, or of its old record when it has no new one.
\<close>

definition record_path :: "json \<Rightarrow> string \<Rightarrow> string option" where
  "record_path d side =
     (case getitem d side of
        Inr r \<Rightarrow> (case getitem r ''path'' of Inr (JString p) \<Rightarrow> Some p | _ \<Rightarrow> None)
      | _ \<Rightarrow> None)"

definition delta_path :: "json \<Rightarrow> string" where
  "delta_path d =
     (case record_path d ''new'' of
        Some p \<Rightarrow> p
      | None \<Rightarrow> (case record_path d ''old'' of Some p \<Rightarrow> p | None \<Rightarrow> []))"

definition ranker_before :: "json \<Rightarrow> json \<Rightarrow> bool" where
  "ranker_before a b =
     (case (getitem a ''score'', getitem b ''score'', getitem a ''factors'', getitem b ''factors'') of
        (Inr sa, Inr sb, Inr fa, Inr fb) \<Rightarrow>
          py_lt sb sa = Inr True
          \<or> (tie sa sb \<and> (py_lt fa fb = Inr True
                          \<or> (tie fa fb \<and> str_lt (delta_path a) (delta_path b))))
      | _ \<Rightarrow> False)"

text \<open>The same comparator without the path.\<close>

definition score_factors_before :: "json \<Rightarrow> json \<Rightarrow> bool" where
  "score_factors_before a b =
     (case (getitem a ''score'', getitem b ''score'', getitem a ''factors'', getitem b ''factors'') of
        (Inr sa, Inr sb, Inr fa, Inr fb) \<Rightarrow>
          py_lt sb sa = Inr True \<or> (tie sa sb \<and> py_lt fa fb = Inr True)
      | _ \<Rightarrow> False)"

text \<open>
  One sort with one comparator, applied once: every element is put behind the
  elements that stand before it, so elements the comparator does not order keep
  their relative order.
\<close>

fun insert_before :: "(json \<Rightarrow> json \<Rightarrow> bool) \<Rightarrow> json \<Rightarrow> json list \<Rightarrow> json list" where
  "insert_before before x [] = [x]"
| "insert_before before x (y # ys) =
     (if before y x then y # insert_before before x ys else x # y # ys)"

definition single_sort :: "(json \<Rightarrow> json \<Rightarrow> bool) \<Rightarrow> json list \<Rightarrow> json list" where
  "single_sort before ds = foldr (insert_before before) ds []"

text \<open>Example values: a delta of an added file, and a scan of a list of deltas.\<close>

definition added :: "string \<Rightarrow> int \<Rightarrow> string list \<Rightarrow> json" where
  "added path score factors =
     JObject [(''status'', JString ''added''), (''factors'', JList (map JString factors)),
              (''score'', JInt score), (''new'', JObject [(''path'', JString path)]),
              (''old'', JNull)]"

definition scan_of :: "json list \<Rightarrow> json" where
  "scan_of deltas =
     JObject [(''deltacode_notice'', JString ''notice''), (''deltacode_version'', JString ''1.0.0''),
              (''deltacode_errors'', JList [JString ''ab\<newline>cd\<newline>ef'']),
              (''deltas_count'', JInt (int (length deltas))), (''deltas'', JList deltas)]"

definition scanned :: "json list \<Rightarrow> json" where
  "scanned deltas =
     JObject [(''deltacode_notice'', JString ''notice''),
              (''deltacode_errors'', JList [JString ''ab\<newline>ef'']),
              (''deltas_count'', JInt (int (length deltas))), (''deltas'', JList deltas)]"

section \<open>Properties\<close>

subsection \<open>Lines of a string\<close>

lemma CR_linebreak: "is_linebreak CR"
  by (simp add: is_linebreak_def CR_def)

lemma LF_linebreak: "is_linebreak LF"
  by (simp add: is_linebreak_def LF_def)

lemma CR_neq_LF: "CR \<noteq> LF"
  by (simp add: CR_def LF_def)

lemma splitlines_crlf: "splitlines (CR # LF # ds) = [CR, LF] # splitlines ds"
  by simp

lemma splitlines_break:
  "is_linebreak c \<Longrightarrow> \<not> (c = CR \<and> (\<exists>ds. cs = LF # ds)) \<Longrightarrow> splitlines (c # cs) = [c] # splitlines cs"
  by (cases cs) auto

lemma splitlines_plain:
  "\<not> is_linebreak c \<Longrightarrow>
   splitlines (c # cs) = (case splitlines cs of [] \<Rightarrow> [[c]] | l # ls \<Rightarrow> (c # l) # ls)"
  using CR_linebreak by auto

lemma splitlines_induct [case_names Nil CRLF Break Plain]:
  assumes "P []"
    and "\<And>ds. P ds \<Longrightarrow> P (CR # LF # ds)"
    and "\<And>c cs. is_linebreak c \<Longrightarrow> \<not> (c = CR \<and> (\<exists>ds. cs = LF # ds)) \<Longrightarrow> P cs \<Longrightarrow> P (c # cs)"
    and "\<And>c cs. \<not> is_linebreak c \<Longrightarrow> P cs \<Longrightarrow> P (c # cs)"
  shows "P s"
proof (induction s rule: length_induct)
  case (1 s)
  show ?case
  proof (cases s)
    case Nil
    with assms(1) show ?thesis by simp
  next
    case (Cons c cs)
    show ?thesis
    proof (cases "is_linebreak c")
      case False
      with assms(4)[of c cs] 1 Cons show ?thesis by simp
    next
      case True
      show ?thesis
      proof (cases "c = CR \<and> (\<exists>ds. cs = LF # ds)")
        case t: True
        then obtain ds where "cs = LF # ds" by blast
        with t assms(2)[of ds] 1 Cons show ?thesis by simp
      next
        case f: False
        from assms(3)[OF True f] 1 Cons show ?thesis by simp
      qed
    qed
  qed
qed

declare splitlines.simps(2) [simp del]

lemma concat_splitlines: "concat (splitlines s) = s"
proof (induction s rule: splitlines_induct)
  case Nil
  show ?case by simp
next
  case (CRLF ds)
  then show ?case by (simp add: splitlines_crlf)
next
  case (Break c cs)
  then show ?case by (simp add: splitlines_break)
next
  case (Plain c cs)
  then show ?case by (cases "splitlines cs") (simp_all add: splitlines_plain)
qed

lemma splitlines_single: "l \<in> set (splitlines s) \<Longrightarrow> splitlines l = [l]"
proof (induction s arbitrary: l rule: splitlines_induct)
  case Nil
  then show ?case by simp
next
  case (CRLF ds)
  then show ?case by (auto simp: splitlines_crlf)
next
  case (Break c cs)
  have "splitlines [c] = [[c]]" using Break(1) by (simp add: splitlines_break)
  with Break show ?case by (auto simp: splitlines_break)
next
  case (Plain c cs)
  show ?case
  proof (cases "splitlines cs")
    case Nil
    with Plain show ?thesis by (simp add: splitlines_plain)
  next
    case (Cons k ks)
    then have "splitlines k = [k]" using Plain(2)[of k] by simp
    with Plain Cons show ?thesis by (auto simp: splitlines_plain)
  qed
qed

lemma length_splitlines_Cons: "length (splitlines b) \<le> Suc (length (splitlines (c # b)))"
proof (cases "is_linebreak c")
  case False
  then show ?thesis by (cases "splitlines b") (simp_all add: splitlines_plain)
next
  case True
  show ?thesis
  proof (cases "c = CR \<and> (\<exists>ds. b = LF # ds)")
    case t: True
    then obtain ds where b: "b = LF # ds" by blast
    have "splitlines (LF # ds) = [LF] # splitlines ds"
      using LF_linebreak CR_neq_LF by (simp add: splitlines_break)
    with t b show ?thesis by (simp add: splitlines_crlf)
  next
    case f: False
    with True show ?thesis by (simp add: splitlines_break)
  qed
qed

lemma length_splitlines_append:
  "length (splitlines (a @ b)) \<le> length (splitlines a) + length (splitlines b)"
proof (induction a rule: splitlines_induct)
  case Nil
  show ?case by simp
next
  case (CRLF ds)
  then show ?case by (simp add: splitlines_crlf)
next
  case (Break c cs)
  show ?case
  proof (cases "c = CR \<and> (\<exists>ds. cs @ b = LF # ds)")
    case False
    with Break show ?thesis by (simp add: splitlines_break)
  next
    case True
    with Break(2) have cs: "cs = []" and c: "c = CR" by (auto simp: append_eq_Cons_conv)
    from True cs obtain ds where b: "b = LF # ds" by auto
    have "splitlines (LF # ds) = [LF] # splitlines ds"
      using LF_linebreak CR_neq_LF by (simp add: splitlines_break)
    moreover have "splitlines [CR] = [[CR]]" using CR_linebreak by (simp add: splitlines_break)
    ultimately show ?thesis using c cs b by (simp add: splitlines_crlf)
  qed
next
  case (Plain c cs)
  then show ?case
    by (cases "splitlines cs"; cases "splitlines (cs @ b)") (simp_all add: splitlines_plain)
qed

lemma cleaned_idem: "cleaned (cleaned e) = cleaned e"
proof (cases "length (splitlines e) \<le> 1")
  case True
  then show ?thesis by (simp add: cleaned_def)
next
  case False
  define ls where "ls = splitlines e"
  from False have ne: "ls \<noteq> []" by (auto simp: ls_def)
  then have "hd ls \<in> set ls" "last ls \<in> set ls" by auto
  then have one: "splitlines (hd ls) = [hd ls]" "splitlines (last ls) = [last ls]"
    unfolding ls_def by (auto dest: splitlines_single)
  let ?t = "hd ls @ last ls"
  have le2: "length (splitlines ?t) \<le> 2"
    using length_splitlines_append[of "hd ls" "last ls"] one by simp
  have ct: "cleaned e = ?t" using False by (simp add: cleaned_def ls_def Let_def)
  have "cleaned ?t = ?t"
  proof (cases "length (splitlines ?t) \<le> 1")
    case True
    then show ?thesis by (simp add: cleaned_def)
  next
    case f: False
    with le2 have "length (splitlines ?t) = 2" by simp
    then obtain x y where xy: "splitlines ?t = [x, y]"
      by (cases "splitlines ?t"; cases "tl (splitlines ?t)") auto
    have "concat (splitlines ?t) = ?t" by (rule concat_splitlines)
    with xy have "x @ y = ?t" by simp
    with xy show ?thesis by (simp add: cleaned_def)
  qed
  with ct show ?thesis by simp
qed

subsection \<open>streamline_errors\<close>

lemma streamline_loop_strings:
  "length pre = i \<Longrightarrow>
   streamline_loop i (map JString rest) (pre @ map JString rest @ post)
     = Inr (pre @ map JString (map cleaned rest) @ post)"
proof (induction rest arbitrary: i pre)
  case Nil
  then show ?case by simp
next
  case (Cons e rest)
  have step: "length (pre @ [JString (cleaned e)]) = Suc i" using Cons.prems by simp
  note ih = Cons.IH[OF step]
  show ?case
  proof (cases "length (splitlines e) \<le> 1")
    case True
    then have "cleaned e = e" by (simp add: cleaned_def)
    with True ih show ?thesis by simp
  next
    case False
    then have c: "cleaned e = hd (splitlines e) @ last (splitlines e)"
      by (simp add: cleaned_def Let_def)
    have upd: "(pre @ JString e # map JString rest @ post)[i := JString (cleaned e)]
        = pre @ JString (cleaned e) # map JString rest @ post"
      using Cons.prems by (simp add: list_update_append)
    from False ih upd c show ?thesis by (simp add: Let_def)
  qed
qed

lemma streamline_errors_strings:
  "streamline_errors (JList (map JString es)) = Inr (JList (map JString (map cleaned es)))"
  using streamline_loop_strings[of "[]" 0 es "[]"] by simp

text \<open>
  Claim C8. On a list of error strings \<^verbatim>\<open>streamline_errors\<close> returns a list of
  the same length; a string of at most one line is unchanged, a string of two or
  more lines becomes its first line followed by its last line; and a second call
  changes nothing.
\<close>

theorem streamline_errors_lines:
  "\<exists>es'. streamline_errors (JList (map JString es)) = Inr (JList (map JString es'))
      \<and> length es' = length es
      \<and> (\<forall>i < length es.
            (length (splitlines (es ! i)) \<le> 1 \<longrightarrow> es' ! i = es ! i)
          \<and> (2 \<le> length (splitlines (es ! i)) \<longrightarrow>
               es' ! i = hd (splitlines (es ! i)) @ last (splitlines (es ! i))))
      \<and> streamline_errors (JList (map JString es')) = Inr (JList (map JString es'))"
proof (intro exI conjI)
  show "streamline_errors (JList (map JString es)) = Inr (JList (map JString (map cleaned es)))"
    by (rule streamline_errors_strings)
  show "length (map cleaned es) = length es" by simp
  show "\<forall>i < length es.
            (length (splitlines (es ! i)) \<le> 1 \<longrightarrow> map cleaned es ! i = es ! i)
          \<and> (2 \<le> length (splitlines (es ! i)) \<longrightarrow>
               map cleaned es ! i = hd (splitlines (es ! i)) @ last (splitlines (es ! i)))"
    by (simp add: cleaned_def Let_def)
  show "streamline_errors (JList (map JString (map cleaned es)))
          = Inr (JList (map JString (map cleaned es)))"
    using streamline_errors_strings[of "map cleaned es"] by (simp add: cleaned_idem cong: map_cong)
qed



theorem streamline_errors_lines_witness:
  "streamline_errors (JList [JString ''ab\<newline>cd\<newline>ef'', JString ''one line''])
     = Inr (JList [JString ''ab\<newline>ef'', JString ''one line''])
   \<and> streamline_errors (JList [JString ''ab\<newline>ef'', JString ''one line''])
     = Inr (JList [JString ''ab\<newline>ef'', JString ''one line''])"
proof -
  have s1: "splitlines ''ab\<newline>cd\<newline>ef'' = [''ab\<newline>'', ''cd\<newline>'', ''ef'']"
    by (simp add: splitlines.simps(2) is_linebreak_def CR_def LF_def)
  have s2: "splitlines ''one line'' = [''one line'']"
    by (simp add: splitlines.simps(2) is_linebreak_def CR_def LF_def)
  from streamline_errors_lines[of "[''ab\<newline>cd\<newline>ef'', ''one line'']"]
  obtain es' where r: "streamline_errors (JList (map JString [''ab\<newline>cd\<newline>ef'', ''one line'']))
        = Inr (JList (map JString es'))"
    and len: "length es' = 2"
    and at: "\<forall>i<2. (length (splitlines ([''ab\<newline>cd\<newline>ef'', ''one line''] ! i)) \<le> 1 \<longrightarrow>
                 es' ! i = [''ab\<newline>cd\<newline>ef'', ''one line''] ! i)
          \<and> (2 \<le> length (splitlines ([''ab\<newline>cd\<newline>ef'', ''one line''] ! i)) \<longrightarrow>
               es' ! i = hd (splitlines ([''ab\<newline>cd\<newline>ef'', ''one line''] ! i))
                   @ last (splitlines ([''ab\<newline>cd\<newline>ef'', ''one line''] ! i)))"
    and idem: "streamline_errors (JList (map JString es')) = Inr (JList (map JString es'))"
    by auto
  from at have "es' ! 0 = ''ab\<newline>ef''" using s1 by auto
  moreover from at have "es' ! 1 = ''one line''" using s2 by auto
  ultimately have "es' = [''ab\<newline>ef'', ''one line'']"
    using len by (cases es'; cases "tl es'") auto
  with r idem show ?thesis by simp
qed

subsection \<open>Mappings\<close>

lemma bind_Inr [simp]: "bind (Inr x) f = f x"
  by (simp add: bind_def)

lemma bind_Inl [simp]: "bind (Inl e) f = Inl e"
  by (simp add: bind_def)

lemma map_of_dict_pop: "k \<noteq> key \<Longrightarrow> map_of (dict_pop key kvs) k = map_of kvs k"
  by (induction kvs) (auto simp: dict_pop_def)

lemma map_of_set_entry:
  "map_of (map (\<lambda>kv. if fst kv = key then (key, v) else kv) kvs) k
     = (if k = key then map_option (\<lambda>_. v) (map_of kvs key) else map_of kvs k)"
  by (induction kvs) auto

lemma fst_set_entry: "map fst (map (\<lambda>kv. if fst kv = key then (key, v) else kv) kvs) = map fst kvs"
  by (induction kvs) auto

lemma filter_set_entry:
  "filter (\<lambda>kv. fst kv \<noteq> key) (map (\<lambda>kv. if fst kv = key then (key, v) else kv) kvs)
     = filter (\<lambda>kv. fst kv \<noteq> key) kvs"
  by (induction kvs) auto

lemma getitem_mutated:
  "getitem (mutated key v (JObject kvs)) k
     = (if k = key then (case map_of kvs key of None \<Rightarrow> Inl KeyError | Some _ \<Rightarrow> Inr v)
        else getitem (JObject kvs) k)"
  by (auto simp: getitem_def mutated_def map_of_set_entry split: option.splits)

lemma mutated_mutated:
  "mutated key v (mutated key w (JObject kvs)) = mutated key v (JObject kvs)"
  by (induction kvs) (auto simp: mutated_def)

lemma streamline_headers_eq:
  assumes "map_of kvs ''deltacode_errors'' = Some errors"
  shows "streamline_headers (JObject kvs)
     = bind (streamline_errors errors) (\<lambda>errors'.
         Inr (mutated ''deltacode_errors'' errors'
               (JObject (dict_pop ''deltacode_options'' (dict_pop ''deltacode_version'' kvs)))))"
  using assms by (simp add: streamline_headers_def pop_method_def getitem_def map_of_dict_pop)

subsection \<open>streamline_headers\<close>

text \<open>
  Claim C9. On a mapping whose \<^verbatim>\<open>deltacode_errors\<close> entry is a list of strings,
  \<^verbatim>\<open>streamline_headers\<close> returns the mapping without the keys
  \<^verbatim>\<open>deltacode_version\<close> and \<^verbatim>\<open>deltacode_options\<close>: the remaining keys stand in
  their old order, every entry other than \<^verbatim>\<open>deltacode_errors\<close> is unchanged, and that
  entry holds the streamlined list.
\<close>

theorem streamline_headers_frame:
  assumes "map_of kvs ''deltacode_errors'' = Some (JList (map JString es))"
  shows "\<exists>kvs' errors'.
           streamline_headers (JObject kvs) = Inr (JObject kvs')
         \<and> map fst kvs'
             = filter (\<lambda>k. k \<noteq> ''deltacode_version'' \<and> k \<noteq> ''deltacode_options'') (map fst kvs)
         \<and> filter (\<lambda>kv. fst kv \<noteq> ''deltacode_errors'') kvs'
             = filter (\<lambda>kv. fst kv \<noteq> ''deltacode_version'' \<and> fst kv \<noteq> ''deltacode_options''
                          \<and> fst kv \<noteq> ''deltacode_errors'') kvs
         \<and> streamline_errors (JList (map JString es)) = Inr errors'
         \<and> map_of kvs' ''deltacode_errors'' = Some errors'"
proof -
  let ?popped = "dict_pop ''deltacode_options'' (dict_pop ''deltacode_version'' kvs)"
  let ?errors' = "JList (map JString (map cleaned es))"
  let ?kvs' = "map (\<lambda>kv. if fst kv = ''deltacode_errors'' then (''deltacode_errors'', ?errors') else kv) ?popped"
  have run: "streamline_headers (JObject kvs) = Inr (JObject ?kvs')"
    by (simp only: streamline_headers_eq[OF assms] streamline_errors_strings bind_Inr mutated_def
        json.simps)
  have keys: "map fst ?kvs'
      = filter (\<lambda>k. k \<noteq> ''deltacode_version'' \<and> k \<noteq> ''deltacode_options'') (map fst kvs)"
    by (simp add: fst_set_entry dict_pop_def filter_map comp_def conj_commute)
  have others: "filter (\<lambda>kv. fst kv \<noteq> ''deltacode_errors'') ?kvs'
      = filter (\<lambda>kv. fst kv \<noteq> ''deltacode_version'' \<and> fst kv \<noteq> ''deltacode_options''
                          \<and> fst kv \<noteq> ''deltacode_errors'') kvs"
    by (simp add: filter_set_entry dict_pop_def conj_commute conj_left_commute)
  have "map_of ?popped ''deltacode_errors'' = Some (JList (map JString es))"
    using assms by (simp add: map_of_dict_pop)
  then have entry: "map_of ?kvs' ''deltacode_errors'' = Some ?errors'"
    by (simp add: map_of_set_entry)
  from run keys others entry streamline_errors_strings[of es] show ?thesis by blast
qed

theorem streamline_headers_frame_witness:
  "streamline_headers (JObject
      [(''deltacode_notice'', JString ''n''), (''deltacode_version'', JString ''1.0.0''),
       (''deltacode_errors'', JList [JString ''ab\<newline>cd\<newline>ef'']),
       (''deltacode_options'', JObject [(''--new'', JString ''x'')]), (''deltas_count'', JInt 0)])
   = Inr (JObject
      [(''deltacode_notice'', JString ''n''),
       (''deltacode_errors'', JList [JString ''ab\<newline>ef'']), (''deltas_count'', JInt 0)])"
proof -
  let ?kvs = "[(''deltacode_notice'', JString ''n''), (''deltacode_version'', JString ''1.0.0''),
       (''deltacode_errors'', JList [JString ''ab\<newline>cd\<newline>ef'']),
       (''deltacode_options'', JObject [(''--new'', JString ''x'')]), (''deltas_count'', JInt 0)]"
  have h: "map_of ?kvs ''deltacode_errors'' = Some (JList (map JString [''ab\<newline>cd\<newline>ef'']))"
    by simp
  have s: "streamline_errors (JList (map JString [''ab\<newline>cd\<newline>ef'']))
             = Inr (JList [JString ''ab\<newline>ef''])"
    by (simp add: splitlines.simps(2) is_linebreak_def CR_def LF_def)
  from streamline_headers_frame[OF h] obtain kvs' errors' where
    r: "streamline_headers (JObject ?kvs) = Inr (JObject kvs')"
    and k: "map fst kvs' = filter (\<lambda>k. k \<noteq> ''deltacode_version'' \<and> k \<noteq> ''deltacode_options'') (map fst ?kvs)"
    and o: "filter (\<lambda>kv. fst kv \<noteq> ''deltacode_errors'') kvs'
             = filter (\<lambda>kv. fst kv \<noteq> ''deltacode_version'' \<and> fst kv \<noteq> ''deltacode_options''
                          \<and> fst kv \<noteq> ''deltacode_errors'') ?kvs"
    and e: "streamline_errors (JList (map JString [''ab\<newline>cd\<newline>ef''])) = Inr errors'"
    and m: "map_of kvs' ''deltacode_errors'' = Some errors'"
    by blast
  from e s have e': "errors' = JList [JString ''ab\<newline>ef'']" by simp
  from k have k': "map fst kvs' = [''deltacode_notice'', ''deltacode_errors'', ''deltas_count'']" by simp
  then obtain a b c where abc: "kvs' = [(''deltacode_notice'', a), (''deltacode_errors'', b), (''deltas_count'', c)]"
    by (auto simp: map_eq_Cons_conv)
  from o abc have "a = JString ''n''" "c = JInt 0" by simp_all
  moreover from m abc e' have "b = JList [JString ''ab\<newline>ef'']" by simp
  ultimately show ?thesis using r abc by simp
qed

subsection \<open>Order of keys\<close>

lemma Nil_less_iff: "([] :: 'a::linorder list) < ys \<longleftrightarrow> ys \<noteq> []"
  by (cases ys) simp_all

lemma str_lt_less: "str_lt a b = (a < b)"
  by (induction a b rule: str_lt.induct) (auto simp: less_char_def Nil_less_iff)

lemma py_eq_JString: "py_eq (JString a) b = (b = JString a)"
  by simp

lemma py_lt_list_strings:
  "py_lt_list (map JString a) (map JString b) = Inr (a < b)"
proof (induction a arbitrary: b)
  case Nil
  show ?case by (simp add: Nil_less_iff)
next
  case (Cons x xs)
  then show ?case by (cases b) (auto simp: str_lt_less)
qed

lemma list_all_is_str: "list_all is_str fs \<Longrightarrow> map (JString \<circ> str_of) fs = fs"
proof (induction fs)
  case Nil
  then show ?case by simp
next
  case (Cons f fs)
  then show ?case by (cases f) auto
qed

lemma wf_delta_keys:
  assumes "wf_delta d"
  shows "getitem d ''score'' = Inr (JInt (score_of d))"
    and "getitem d ''factors'' = Inr (JList (map JString (factors_of d)))"
  using assms
  by (auto simp: wf_delta_def score_of_def factors_of_def list_all_is_str
      split: sum.splits json.splits)

subsection \<open>The sort\<close>

lemma decorate_keys:
  "(\<And>x. x \<in> set xs \<Longrightarrow> key x = Inr (k x)) \<Longrightarrow> decorate key xs = Inr (map (\<lambda>x. (k x, x)) xs)"
  by (induction xs) auto

lemma insort_lt_insort_key:
  fixes K :: "json \<Rightarrow> 'k::linorder"
  assumes "\<And>q. q \<in> set qs \<Longrightarrow> py_lt (fst q) (fst p) = Inr (K (fst q) < K (fst p))"
  shows "insort_lt p qs = Inr (insort_key (\<lambda>p. K (fst p)) p qs)"
  using assms by (induction qs) (auto simp: not_less)

lemma stable_sort_sort_key:
  fixes K :: "json \<Rightarrow> 'k::linorder"
  assumes "\<And>p q. p \<in> set ps \<Longrightarrow> q \<in> set ps \<Longrightarrow> py_lt (fst q) (fst p) = Inr (K (fst q) < K (fst p))"
  shows "stable_sort ps = Inr (sort_key (\<lambda>p. K (fst p)) ps)"
  using assms
proof (induction ps)
  case Nil
  then show ?case by simp
next
  case (Cons p ps)
  have ih: "stable_sort ps = Inr (sort_key (\<lambda>p. K (fst p)) ps)"
    using Cons by simp
  have "insort_lt p (sort_key (\<lambda>p. K (fst p)) ps)
          = Inr (insort_key (\<lambda>p. K (fst p)) p (sort_key (\<lambda>p. K (fst p)) ps))"
    by (rule insort_lt_insort_key) (use Cons.prems in simp)
  with ih show ?case by simp
qed

lemma insort_key_map:
  "insort_key f (g x) (map g ys) = map g (insort_key (\<lambda>y. f (g y)) x ys)"
  by (induction ys) auto

lemma sort_key_map: "sort_key f (map g xs) = map g (sort_key (\<lambda>y. f (g y)) xs)"
  by (induction xs) (auto simp: insort_key_map)

lemma list_sort_sort_key:
  fixes K :: "json \<Rightarrow> 'k::linorder"
  assumes keys: "\<And>x. x \<in> set xs \<Longrightarrow> key x = Inr (k x)"
    and lt: "\<And>x y. x \<in> set xs \<Longrightarrow> y \<in> set xs \<Longrightarrow> py_lt (k y) (k x) = Inr (K (k y) < K (k x))"
  shows "list_sort key False xs = Inr (sort_key (\<lambda>x. K (k x)) xs)"
    and "list_sort key True xs = Inr (rev (sort_key (\<lambda>x. K (k x)) (rev xs)))"
proof -
  let ?ps = "map (\<lambda>x. (k x, x)) xs"
  have d: "decorate key xs = Inr ?ps" using keys by (rule decorate_keys)
  have s1: "stable_sort ?ps = Inr (sort_key (\<lambda>p. K (fst p)) ?ps)"
    by (rule stable_sort_sort_key) (use lt in auto)
  have s2: "stable_sort (rev ?ps) = Inr (sort_key (\<lambda>p. K (fst p)) (rev ?ps))"
    by (rule stable_sort_sort_key) (use lt in auto)
  have m: "\<And>ys. map snd (sort_key (\<lambda>p. K (fst p)) (map (\<lambda>x. (k x, x)) ys)) = sort_key (\<lambda>x. K (k x)) ys"
    by (simp add: sort_key_map comp_def)
  show "list_sort key False xs = Inr (sort_key (\<lambda>x. K (k x)) xs)"
    using d s1 m[of xs] by (simp add: list_sort_def)
  have r: "rev ?ps = map (\<lambda>x. (k x, x)) (rev xs)" by (simp add: rev_map)
  have "list_sort key True xs = Inr (map snd (rev (sort_key (\<lambda>p. K (fst p)) (rev ?ps))))"
    using d s2 by (simp add: list_sort_def)
  also have "map snd (rev (sort_key (\<lambda>p. K (fst p)) (rev ?ps)))
      = rev (map snd (sort_key (\<lambda>p. K (fst p)) (rev ?ps)))"
    by (simp only: rev_map)
  also have "\<dots> = rev (sort_key (\<lambda>x. K (k x)) (rev xs))"
    by (simp only: r m)
  finally show "list_sort key True xs = Inr (rev (sort_key (\<lambda>x. K (k x)) (rev xs)))" .
qed

lemma sort_factors:
  assumes "\<And>d. d \<in> set ds \<Longrightarrow> wf_delta d"
  shows "list_sort (\<lambda>x. getitem x ''factors'') False ds = Inr (sort_key factors_of ds)"
proof -
  have "list_sort (\<lambda>x. getitem x ''factors'') False ds
      = Inr (sort_key (\<lambda>x. (\<lambda>j. case j of JList js \<Rightarrow> map str_of js | _ \<Rightarrow> [])
                        (JList (map JString (factors_of x)))) ds)"
    by (rule list_sort_sort_key(1)) (use assms in \<open>auto simp: wf_delta_keys py_lt_list_strings comp_def\<close>)
  then show ?thesis by (simp add: comp_def)
qed

lemma sort_score:
  assumes "\<And>d. d \<in> set ds \<Longrightarrow> wf_delta d"
  shows "list_sort (\<lambda>x. getitem x ''score'') True ds = Inr (rev (sort_key score_of (rev ds)))"
proof -
  have "list_sort (\<lambda>x. getitem x ''score'') True ds
      = Inr (rev (sort_key (\<lambda>x. (\<lambda>j. case j of JInt n \<Rightarrow> n | _ \<Rightarrow> 0) (JInt (score_of x))) (rev ds)))"
    by (rule list_sort_sort_key(2)) (use assms in \<open>auto simp: wf_delta_keys\<close>)
  then show ?thesis by simp
qed

lemma sorted_map_uminus_rev:
  fixes f :: "'a \<Rightarrow> int"
  shows "sorted (map f xs) \<Longrightarrow> sorted (map (\<lambda>x. - f x) (rev xs))"
  by (induction xs) (auto simp: sorted_append)

lemma rev_sort_key_rev:
  fixes f :: "'a \<Rightarrow> int"
  shows "rev (sort_key f (rev xs)) = sort_key (\<lambda>x. - f x) xs"
proof (rule sym, rule properties_for_sort_key)
  show "mset (rev (sort_key f (rev xs))) = mset xs" by simp
  show "\<And>k. k \<in> set (rev (sort_key f (rev xs))) \<Longrightarrow>
         filter (\<lambda>x. - f k = - f x) (rev (sort_key f (rev xs))) = filter (\<lambda>x. - f k = - f x) xs"
  proof -
    fix k
    have "filter (\<lambda>x. f x = f k) (rev (sort_key f (rev xs)))
        = rev (filter (\<lambda>x. f x = f k) (sort_key f (rev xs)))" by (simp add: rev_filter)
    also have "\<dots> = rev (filter (\<lambda>x. f x = f k) (rev xs))" by (simp only: sort_key_stable)
    also have "\<dots> = filter (\<lambda>x. f x = f k) xs" by (simp add: rev_filter)
    finally show "filter (\<lambda>x. - f k = - f x) (rev (sort_key f (rev xs))) = filter (\<lambda>x. - f k = - f x) xs"
      by (simp add: eq_commute[of "f k"])
  qed
  show "sorted (map (\<lambda>x. - f x) (rev (sort_key f (rev xs))))"
    by (rule sorted_map_uminus_rev) simp
qed

lemma sorted_lex_key:
  fixes f :: "'a \<Rightarrow> 'b::linorder" and g :: "'a \<Rightarrow> 'c::linorder"
  assumes "sorted (map f ys)" and "\<And>k. sorted (map g (filter (\<lambda>x. f x = k) ys))"
  shows "sorted (map (\<lambda>x. (f x, g x)) ys)"
  using assms
proof (induction ys)
  case Nil
  then show ?case by simp
next
  case (Cons y ys)
  have tail: "sorted (map (\<lambda>x. (f x, g x)) ys)"
  proof (rule Cons.IH)
    show "sorted (map f ys)" using Cons.prems(1) by simp
    fix k
    from Cons.prems(2)[of k] show "sorted (map g (filter (\<lambda>x. f x = k) ys))"
      by (auto split: if_splits)
  qed
  have "(f y, g y) \<le> (f z, g z)" if z: "z \<in> set ys" for z
  proof -
    from Cons.prems(1) z have le: "f y \<le> f z" by auto
    show ?thesis
    proof (cases "f y = f z")
      case True
      from Cons.prems(2)[of "f y"] z True have "g y \<le> g z" by auto
      with True show ?thesis by (simp add: less_eq_prod_def)
    next
      case False
      with le have "f y < f z" by simp
      then show ?thesis by (simp add: less_eq_prod_def)
    qed
  qed
  with tail show ?case by auto
qed

lemma sort_key_twice:
  fixes f :: "'a \<Rightarrow> 'b::linorder" and g :: "'a \<Rightarrow> 'c::linorder"
  shows "sort_key f (sort_key g xs) = sort_key (\<lambda>x. (f x, g x)) xs"
proof (rule sym, rule properties_for_sort_key)
  let ?ys = "sort_key f (sort_key g xs)"
  show "mset ?ys = mset xs" by simp
  show "\<And>k. k \<in> set ?ys \<Longrightarrow>
        filter (\<lambda>x. (f k, g k) = (f x, g x)) ?ys = filter (\<lambda>x. (f k, g k) = (f x, g x)) xs"
  proof -
    fix k
    have "filter (\<lambda>x. f x = f k \<and> g x = g k) ?ys
        = filter (\<lambda>x. g x = g k) (filter (\<lambda>x. f x = f k) ?ys)"
      by (simp add: conj_commute)
    also have "\<dots> = filter (\<lambda>x. g x = g k) (filter (\<lambda>x. f x = f k) (sort_key g xs))"
      by (simp only: sort_key_stable)
    also have "\<dots> = filter (\<lambda>x. f x = f k) (filter (\<lambda>x. g x = g k) (sort_key g xs))"
      by (simp add: conj_commute)
    also have "\<dots> = filter (\<lambda>x. f x = f k) (filter (\<lambda>x. g x = g k) xs)"
      by (simp only: sort_key_stable)
    also have "\<dots> = filter (\<lambda>x. f x = f k \<and> g x = g k) xs"
      by (simp add: conj_commute)
    finally show "filter (\<lambda>x. (f k, g k) = (f x, g x)) ?ys = filter (\<lambda>x. (f k, g k) = (f x, g x)) xs"
      by (simp add: eq_commute[of "f k"] eq_commute[of "g k"])
  qed
  show "sorted (map (\<lambda>x. (f x, g x)) ?ys)"
  proof (rule sorted_lex_key)
    show "sorted (map f ?ys)" by simp
    fix k
    have "filter (\<lambda>x. f x = k) ?ys = filter (\<lambda>x. f x = k) (sort_key g xs)"
      by (simp only: sort_key_stable)
    then show "sorted (map g (filter (\<lambda>x. f x = k) ?ys))"
      by (simp add: sorted_filter)
  qed
qed

lemma sort_deltas_sort_key:
  assumes "\<And>d. d \<in> set ds \<Longrightarrow> wf_delta d"
  shows "sort_deltas ds = Inr (sort_key (\<lambda>d. (- score_of d, factors_of d)) ds)"
proof -
  have "list_sort (\<lambda>x. getitem x ''score'') True (sort_key factors_of ds)
      = Inr (rev (sort_key score_of (rev (sort_key factors_of ds))))"
    by (rule sort_score) (use assms in simp)
  then show ?thesis
    by (simp add: sort_deltas_def sort_factors[OF assms] rev_sort_key_rev sort_key_twice)
qed

end
